theory Spec2Isabelle
  imports Complex_Main "HOL-Library.Sublist"
begin

section \<open>Text processing (src/utils/text\_processing.py)\<close>

text \<open>
  Strings are lists of characters. The model covers ASCII text: the character classes
  below are the ASCII parts of Python's \<open>\w\<close>, \<open>\d\<close>, \<open>\s\<close>, \<open>[A-Z]\<close> and of
  \<open>str.lower\<close>/\<open>str.upper\<close>; a character outside ASCII is treated as a symbol that is
  in none of the classes and that \<open>lower\<close>/\<open>upper\<close> leave alone.
  Python floats are modelled as exact reals.
\<close>

definition is_upper :: "char \<Rightarrow> bool" where
  "is_upper c = (65 \<le> (of_char c :: nat) \<and> (of_char c :: nat) \<le> 90)"

definition is_lower :: "char \<Rightarrow> bool" where
  "is_lower c = (97 \<le> (of_char c :: nat) \<and> (of_char c :: nat) \<le> 122)"

definition is_digit :: "char \<Rightarrow> bool" where
  "is_digit c = (48 \<le> (of_char c :: nat) \<and> (of_char c :: nat) \<le> 57)"

text \<open>The regular expression class \<open>\w\<close>: letters, digits and the underscore.\<close>

definition is_word :: "char \<Rightarrow> bool" where
  "is_word c = (is_upper c \<or> is_lower c \<or> is_digit c \<or> c = CHR ''_'')"

text \<open>The class \<open>\s\<close> of Python 3 on \<open>str\<close>, which is also what \<open>str.strip\<close> removes:
  tab, newline, vertical tab, form feed, carriage return, the four separators
  \<open>0x1c\<close> to \<open>0x1f\<close>, and the space.\<close>

definition is_space :: "char \<Rightarrow> bool" where
  "is_space c = ((9 \<le> (of_char c :: nat) \<and> (of_char c :: nat) \<le> 13) \<or>
                 (28 \<le> (of_char c :: nat) \<and> (of_char c :: nat) \<le> 32))"

definition lower_char :: "char \<Rightarrow> char" where
  "lower_char c = (if is_upper c then char_of ((of_char c :: nat) + 32) else c)"

definition upper_char :: "char \<Rightarrow> char" where
  "upper_char c = (if is_lower c then char_of ((of_char c :: nat) - 32) else c)"

text \<open>\<open>str.lower()\<close> and \<open>str.upper()\<close>.\<close>

definition lower :: "string \<Rightarrow> string" where
  "lower s = map lower_char s"

definition upper :: "string \<Rightarrow> string" where
  "upper s = map upper_char s"

text \<open>\<open>" ".join(ws)\<close>.\<close>

fun join_space :: "string list \<Rightarrow> string" where
  "join_space [] = []"
| "join_space [w] = w"
| "join_space (w # v # ws) = w @ CHR '' '' # join_space (v # ws)"

text \<open>\<open>re.findall(r'\b\w+\b', s)\<close>: the maximal runs of word characters, left to right.
  A match starts at the first word character after the previous match; the greedy
  \<open>\w+\<close> takes the whole run, where the closing \<open>\b\<close> holds.\<close>

function findall_words :: "string \<Rightarrow> string list" where
  "findall_words s =
     (case dropWhile (\<lambda>c. \<not> is_word c) s of
        [] \<Rightarrow> []
      | c # r \<Rightarrow> (c # takeWhile is_word r) # findall_words (dropWhile is_word r))"
  by pat_completeness auto
termination
proof (relation "measure length")
  show "wf (measure length)" by simp
next
  fix s :: string and c r
  assume "dropWhile (\<lambda>c. \<not> is_word c) s = c # r"
  then have "length s \<ge> Suc (length r)"
    by (metis length_Cons length_dropWhile_le)
  moreover have "length (dropWhile is_word r) \<le> length r"
    by (rule length_dropWhile_le)
  ultimately show "(dropWhile is_word r, s) \<in> measure length" by simp
qed

declare findall_words.simps [simp del]

definition stop_words :: "string list" where
  "stop_words = [''the'', ''is'', ''at'', ''which'', ''on'', ''a'', ''an'', ''as'', ''are'',
                 ''was'', ''were'', ''been'', ''be'', ''have'', ''has'', ''had'', ''do'',
                 ''does'', ''did'', ''will'', ''would'', ''should'', ''could'', ''may'',
                 ''might'', ''must'', ''can'', ''this'', ''that'', ''these'', ''those'']"

text \<open>\<open>collections.Counter\<close>: a dictionary in insertion order, here an association list.
  \<open>counter_add\<close> is \<open>counts[w] += 1\<close>; \<open>most_common()\<close> sorts the items by count with
  \<open>reverse=True\<close>, which is stable: items of equal count keep their insertion order.\<close>

fun counter_add :: "(string \<times> nat) list \<Rightarrow> string \<Rightarrow> (string \<times> nat) list" where
  "counter_add [] w = [(w, 1)]"
| "counter_add ((k, c) # r) w = (if k = w then (k, c + 1) # r else (k, c) # counter_add r w)"

definition Counter :: "string list \<Rightarrow> (string \<times> nat) list" where
  "Counter ws = foldl counter_add [] ws"

definition most_common :: "(string \<times> nat) list \<Rightarrow> (string \<times> nat) list" where
  "most_common cs = sort_key (\<lambda>(w, c). - int c) cs"

text \<open>The list comprehension of \<open>extract_keywords\<close>: the words that are long enough and
  no stop words, with their repetitions.\<close>

definition keyword_occurrences :: "string \<Rightarrow> int \<Rightarrow> string list" where
  "keyword_occurrences text min_length =
     filter (\<lambda>w. min_length \<le> int (length w) \<and> w \<notin> set stop_words)
       (findall_words (lower text))"

definition extract_keywords :: "string \<Rightarrow> int \<Rightarrow> string list" where
  "extract_keywords text min_length =
     map fst (most_common (Counter (keyword_occurrences text min_length)))"

text \<open>\<open>calculate_similarity\<close>, with \<open>min_length\<close> at its default 3. Python sets are HOL
  sets of the keyword lists.\<close>

definition calculate_similarity :: "string \<Rightarrow> string \<Rightarrow> real" where
  "calculate_similarity text1 text2 =
     (let words1 = set (extract_keywords text1 3);
          words2 = set (extract_keywords text2 3)
      in if words1 = {} \<or> words2 = {} then 0
         else let intersection = words1 \<inter> words2;
                  union = words1 \<union> words2
              in if union = {} then 0
                 else real (card intersection) / real (card union))"

subsection \<open>Reference notions the statements use\<close>

text \<open>The elements of a list in the order of their first occurrence.\<close>

fun first_occurrences :: "'a list \<Rightarrow> 'a list" where
  "first_occurrences [] = []"
| "first_occurrences (x # xs) = x # filter (\<lambda>y. y \<noteq> x) (first_occurrences xs)"

text \<open>The Jaccard index of two finite sets.\<close>

definition jaccard :: "'a set \<Rightarrow> 'a set \<Rightarrow> real" where
  "jaccard A B = real (card (A \<inter> B)) / real (card (A \<union> B))"

text \<open>A word as \<open>findall_words\<close> finds it: a non-empty run of word characters.\<close>

definition is_token :: "string \<Rightarrow> bool" where
  "is_token t = (t \<noteq> [] \<and> (\<forall>c\<in>set t. is_word c))"

text \<open>How often a word occurs among the words of the lowercased text.\<close>

definition frequency :: "string \<Rightarrow> string \<Rightarrow> nat" where
  "frequency text w = count_list (findall_words (lower text)) w"

subsection \<open>Ticket references\<close>

text \<open>
  The four patterns of \<open>extract_ticket_reference\<close> use literal characters, the class
  \<open>[A-Z]\<close>, the class \<open>\d\<close> and the greedy \<open>+\<close>. A pattern is a list of items; each
  item is one atom or an atom repeated once or more. All matching is done under
  \<open>re.IGNORECASE\<close>: a literal matches both cases of a letter and \<open>[A-Z]\<close> matches
  every letter.
\<close>

datatype atom = Lit char | Letter | Digit

datatype item = One atom | Plus atom

type_synonym pattern = "item list"

fun atom_matches :: "atom \<Rightarrow> char \<Rightarrow> bool" where
  "atom_matches (Lit a) c = (lower_char c = lower_char a)"
| "atom_matches Letter c = (is_upper c \<or> is_lower c)"
| "atom_matches Digit c = is_digit c"

text \<open>The match of a pattern at the start of a string, as the backtracking matcher
  finds it: a repetition first takes as many characters as it can and gives one back
  at a time when the rest of the pattern fails.\<close>

fun match_here :: "pattern \<Rightarrow> string \<Rightarrow> string option" where
  "match_here [] s = Some []"
| "match_here (One a # p) [] = None"
| "match_here (One a # p) (c # s) =
     (if atom_matches a c then map_option (Cons c) (match_here p s) else None)"
| "match_here (Plus a # p) [] = None"
| "match_here (Plus a # p) (c # s) =
     (if atom_matches a c
      then (case match_here (Plus a # p) s of
              Some m \<Rightarrow> Some (c # m)
            | None \<Rightarrow> map_option (Cons c) (match_here p s))
      else None)"

text \<open>\<open>re.search(pattern, text, re.IGNORECASE)\<close>: the match at the leftmost position
  that has one; \<open>None\<close> when no position has a match.\<close>

fun re_search :: "pattern \<Rightarrow> string \<Rightarrow> string option" where
  "re_search p [] = match_here p []"
| "re_search p (c # s) =
     (case match_here p (c # s) of Some m \<Rightarrow> Some m | None \<Rightarrow> re_search p s)"

definition patterns :: "pattern list" where
  "patterns =
     [[Plus Letter, One (Lit CHR ''-''), Plus Digit],
      [One (Lit CHR ''#''), Plus Letter, One (Lit CHR ''-''), Plus Digit],
      [One (Lit CHR ''T''), One (Lit CHR ''I''), One (Lit CHR ''C''), One (Lit CHR ''K''),
       One (Lit CHR ''E''), One (Lit CHR ''T''), One (Lit CHR ''-''), Plus Digit],
      [One (Lit CHR ''#''), Plus Digit]]"

text \<open>The loop over the patterns: the first pattern with a match returns it with every
  \<open>#\<close> removed (\<open>replace('#', '')\<close>) and uppercased.\<close>

fun try_patterns :: "pattern list \<Rightarrow> string \<Rightarrow> string" where
  "try_patterns [] text = []"
| "try_patterns (p # ps) text =
     (case re_search p text of
        Some m \<Rightarrow> upper (filter (\<lambda>c. c \<noteq> CHR ''#'') m)
      | None \<Rightarrow> try_patterns ps text)"

definition extract_ticket_reference :: "string \<Rightarrow> string" where
  "extract_ticket_reference text = try_patterns patterns text"

text \<open>Reference notion: a match without its leading \<open>#\<close>, if it has one.\<close>

fun strip_hash :: "string \<Rightarrow> string" where
  "strip_hash [] = []"
| "strip_hash (c # s) = (if c = CHR ''#'' then s else c # s)"

text \<open>The atoms of a pattern.\<close>

fun atom_of :: "item \<Rightarrow> atom" where
  "atom_of (One a) = a"
| "atom_of (Plus a) = a"

subsection \<open>Cleaning and formatting\<close>

text \<open>\<open>re.sub(r'\s+', ' ', text)\<close>: every maximal run of whitespace becomes one space.\<close>

function collapse_whitespace :: "string \<Rightarrow> string" where
  "collapse_whitespace [] = []"
| "collapse_whitespace (c # s) =
     (if is_space c then CHR '' '' # collapse_whitespace (dropWhile is_space s)
      else c # collapse_whitespace s)"
  by pat_completeness auto
termination
proof (relation "measure length")
  show "wf (measure length)" by simp
next
  fix c :: char and s :: string
  show "(dropWhile is_space s, c # s) \<in> measure length"
    using length_dropWhile_le [of is_space s] by simp
next
  fix c :: char and s :: string
  show "(s, c # s) \<in> measure length" by simp
qed

text \<open>\<open>str.strip()\<close>.\<close>

definition strip :: "string \<Rightarrow> string" where
  "strip s = rev (dropWhile is_space (rev (dropWhile is_space s)))"

definition clean_text :: "string \<Rightarrow> string" where
  "clean_text text = (if text = [] then [] else strip (collapse_whitespace text))"

text \<open>The slice \<open>xs[:n]\<close> for an integer \<open>n\<close>: the first \<open>n\<close> elements, and for a
  negative \<open>n\<close> all but the last \<open>-n\<close>.\<close>

definition slice_to :: "'a list \<Rightarrow> int \<Rightarrow> 'a list" where
  "slice_to xs n = (if 0 \<le> n then take (nat n) xs else take (length xs - nat (- n)) xs)"

definition format_response :: "string \<Rightarrow> int \<Rightarrow> string" where
  "format_response response max_length =
     (let response = clean_text response
      in if max_length < int (length response)
         then slice_to response max_length @ ''...''
         else response)"

section \<open>Ticket retriever (src/ticket\_system/ticket\_retriever.py)\<close>

text \<open>
  A ticket is a dictionary. Each key the code reads is a field that is \<open>None\<close> when the
  key is absent, so that \<open>ticket.get(key, default)\<close> is \<open>get_or\<close>; \<open>match_score\<close> is the
  key that \<open>search_tickets\<close> adds to its copies. Field values are strings, as in the
  tickets file the code writes.
\<close>

record comment =
  c_author :: "string option"
  c_body :: "string option"
  c_created_date :: "string option"

record ticket =
  t_id :: "string option"
  t_title :: "string option"
  t_description :: "string option"
  t_status :: "string option"
  t_priority :: "string option"
  t_assignee :: "string option"
  t_reporter :: "string option"
  t_created_date :: "string option"
  t_updated_date :: "string option"
  t_comments :: "comment list option"
  match_score :: "real option"

definition get_or :: "'a option \<Rightarrow> 'a \<Rightarrow> 'a" where
  "get_or v d = (case v of None \<Rightarrow> d | Some x \<Rightarrow> x)"

text \<open>The dictionary without any key, the only ticket that is false in \<open>if ticket:\<close>.\<close>

definition empty_ticket :: ticket where
  "empty_ticket = \<lparr>t_id = None, t_title = None, t_description = None, t_status = None,
     t_priority = None, t_assignee = None, t_reporter = None, t_created_date = None,
     t_updated_date = None, t_comments = None, match_score = None\<rparr>"

text \<open>The three tickets \<open>_initialize_local_tickets\<close> writes when there is no file.\<close>

definition sample_tickets :: "ticket list" where
  "sample_tickets =
    [\<lparr>t_id = Some ''PROJ-1001'',
      t_title = Some ''Unable to login to application'',
      t_description = Some (''User is experiencing login issues with error message 'Invalid credentials'' @
        [CHR 0x27]),
      t_status = Some ''Open'', t_priority = Some ''High'',
      t_assignee = Some ''support-team'', t_reporter = Some ''customer@example.com'',
      t_created_date = Some ''2024-01-15T10:30:00Z'', t_updated_date = Some ''2024-01-15T14:20:00Z'',
      t_comments = Some [\<lparr>c_author = Some ''support-team'',
         c_body = Some ''Please check if you're using the correct password'',
         c_created_date = Some ''2024-01-15T11:00:00Z''\<rparr>],
      match_score = None\<rparr>,
     \<lparr>t_id = Some ''PROJ-1002'',
      t_title = Some ''Feature request: Add dark mode'',
      t_description = Some ''Customer requests dark mode theme for better visibility'',
      t_status = Some ''In Progress'', t_priority = Some ''Medium'',
      t_assignee = Some ''dev-team'', t_reporter = Some ''user@example.com'',
      t_created_date = Some ''2024-01-14T09:15:00Z'', t_updated_date = Some ''2024-01-16T08:45:00Z'',
      t_comments = Some [\<lparr>c_author = Some ''dev-team'',
         c_body = Some ''Dark mode is planned for Q2 release'',
         c_created_date = Some ''2024-01-14T16:30:00Z''\<rparr>],
      match_score = None\<rparr>,
     \<lparr>t_id = Some ''PROJ-1003'',
      t_title = Some ''Payment processing error'',
      t_description = Some ''Transaction failed with error code 500. Customer unable to complete purchase.'',
      t_status = Some ''Resolved'', t_priority = Some ''Critical'',
      t_assignee = Some ''payment-team'', t_reporter = Some ''merchant@example.com'',
      t_created_date = Some ''2024-01-13T15:20:00Z'', t_updated_date = Some ''2024-01-14T10:10:00Z'',
      t_comments = Some [\<lparr>c_author = Some ''payment-team'',
         c_body = Some ''Issue resolved. Was a temporary service outage.'',
         c_created_date = Some ''2024-01-14T10:10:00Z''\<rparr>],
      match_score = None\<rparr>]"

text \<open>
  The tickets file as a read finds it: absent, present but failing to open or parse (an
  exception inside the \<open>try\<close>), or a list of tickets.
\<close>

datatype tickets_file = Missing | Unreadable | Tickets "ticket list"

text \<open>
  The remote side. \<open>requests.get\<close> either raises or returns a response with a status
  code. For a response, the second component says what
  \<open>self._transform_jira_response(response.json())\<close> does with its body: it yields a
  ticket or raises. \<open>RequestException\<close> stands for \<open>requests.exceptions.RequestException\<close>
  and its subclasses (connection errors, timeouts), \<open>OtherException\<close> for any exception
  outside that class.
\<close>

datatype py_exception = RequestException | OtherException

datatype http_outcome = Raises py_exception | Response nat "py_exception + ticket"

datatype level = DEBUG | INFO | WARNING | ERROR

type_synonym log = "(level \<times> string) list"

record retriever =
  api_url :: string
  username :: "string option"
  api_token :: "string option"
  tickets_file :: tickets_file
  http_get :: "string \<Rightarrow> http_outcome"

text \<open>\<open>not self.username\<close>: the value is \<open>None\<close> or the empty string.\<close>

definition falsy :: "string option \<Rightarrow> bool" where
  "falsy v = (v = None \<or> v = Some [])"

text \<open>Every function returns the log lines it writes next to its result. The text of a
  caught exception, which the source appends to its error lines, is left out.\<close>

definition get_ticket_from_local :: "retriever \<Rightarrow> string \<Rightarrow> ticket option \<times> log" where
  "get_ticket_from_local r ticket_id =
     (case tickets_file r of
        Missing \<Rightarrow> (None, [])
      | Unreadable \<Rightarrow> (None, [(ERROR, ''Error reading local tickets'')])
      | Tickets tickets \<Rightarrow>
          (find (\<lambda>ticket. upper (get_or (t_id ticket) []) = ticket_id) tickets, []))"

definition fetch_ticket_from_api ::
    "retriever \<Rightarrow> string \<Rightarrow> (py_exception + ticket option) \<times> log" where
  "fetch_ticket_from_api r ticket_id =
     (if falsy (username r) \<or> falsy (api_token r)
      then (Inr None, [(WARNING, ''API credentials not configured. Using local tickets only.'')])
      else
        (case http_get r (api_url r @ ''/rest/api/2/issue/'' @ ticket_id) of
           Raises RequestException \<Rightarrow> (Inr None, [(ERROR, ''Error fetching ticket from API'')])
         | Raises OtherException \<Rightarrow> (Inl OtherException, [])
         | Response status_code body \<Rightarrow>
             if status_code = 200
             then (case body of
                     Inr ticket \<Rightarrow> (Inr (Some ticket), [])
                   | Inl RequestException \<Rightarrow>
                       (Inr None, [(ERROR, ''Error fetching ticket from API'')])
                   | Inl OtherException \<Rightarrow> (Inl OtherException, []))
             else (Inr None, [(ERROR, ''API request failed with status'')])))"

text \<open>\<open>get_ticket\<close>. \<open>if ticket:\<close> is false for \<open>None\<close> and for the empty dictionary.\<close>

definition get_ticket :: "retriever \<Rightarrow> string \<Rightarrow> (py_exception + ticket option) \<times> log" where
  "get_ticket r ticket_id =
     (let ticket_id = upper (clean_text ticket_id);
          (ticket, log1) = get_ticket_from_local r ticket_id
      in if ticket \<noteq> None \<and> ticket \<noteq> Some empty_ticket
         then (Inr ticket, log1 @ [(INFO, ''Retrieved ticket '' @ ticket_id @ '' from local storage'')])
         else
           (case fetch_ticket_from_api r ticket_id of
              (Inl e, log2) \<Rightarrow> (Inl e, log1 @ log2)
            | (Inr ticket, log2) \<Rightarrow>
                if ticket \<noteq> None \<and> ticket \<noteq> Some empty_ticket
                then (Inr ticket,
                      log1 @ log2 @ [(INFO, ''Retrieved ticket '' @ ticket_id @ '' from API'')])
                else (Inr None,
                      log1 @ log2 @ [(WARNING, ''Ticket '' @ ticket_id @ '' not found'')])))"

text \<open>
  The score \<open>search_tickets\<close> gives a ticket, and the search itself. \<open>max_results\<close> is an
  integer (10 when the caller gives none). A missing file and an exception both end in
  \<open>return []\<close>.
\<close>

definition ticket_score :: "string \<Rightarrow> ticket \<Rightarrow> real" where
  "ticket_score query ticket =
     (let query_lower = lower query;
          title = lower (get_or (t_title ticket) []);
          description = lower (get_or (t_description ticket) []);
          ticket_id = lower (get_or (t_id ticket) []);
          score = 0;
          score = (if sublist query_lower ticket_id then score + 10 else score);
          score = (if sublist query_lower title then score + 5 else score);
          score = (if sublist query_lower description then score + 2 else score);
          text_content = title @ '' '' @ description;
          similarity = calculate_similarity query text_content
      in score + similarity * 3)"

definition search_tickets :: "tickets_file \<Rightarrow> string \<Rightarrow> int \<Rightarrow> ticket list" where
  "search_tickets file query max_results =
     (case file of
        Missing \<Rightarrow> []
      | Unreadable \<Rightarrow> []
      | Tickets tickets \<Rightarrow>
          (let matching_tickets =
                 concat (map (\<lambda>ticket.
                     let score = ticket_score query ticket
                     in if 0 < score then [ticket\<lparr>match_score := Some score\<rparr>] else [])
                   tickets);
               matching_tickets =
                 sort_key (\<lambda>x. - get_or (match_score x) 0) matching_tickets
           in slice_to matching_tickets max_results))"

subsection \<open>Reference notions for the ticket search\<close>

text \<open>The score as claim C2 words it: the lowercased query is looked for in the id, the
  title and the description as they are stored.\<close>

definition claimed_ticket_score :: "string \<Rightarrow> ticket \<Rightarrow> real" where
  "claimed_ticket_score query ticket =
     (if sublist (lower query) (get_or (t_id ticket) []) then 10 else 0) +
     (if sublist (lower query) (get_or (t_title ticket) []) then 5 else 0) +
     (if sublist (lower query) (get_or (t_description ticket) []) then 2 else 0) +
     calculate_similarity query
       (get_or (t_title ticket) [] @ '' '' @ get_or (t_description ticket) []) * 3"

text \<open>The score with the three stored texts lowercased before the substring tests.\<close>

definition caseless_ticket_score :: "string \<Rightarrow> ticket \<Rightarrow> real" where
  "caseless_ticket_score query ticket =
     (if sublist (lower query) (lower (get_or (t_id ticket) [])) then 10 else 0) +
     (if sublist (lower query) (lower (get_or (t_title ticket) [])) then 5 else 0) +
     (if sublist (lower query) (lower (get_or (t_description ticket) [])) then 2 else 0) +
     calculate_similarity query
       (get_or (t_title ticket) [] @ '' '' @ get_or (t_description ticket) []) * 3"

text \<open>Two small tickets for the examples.\<close>

definition small_ticket :: "string \<Rightarrow> string \<Rightarrow> string \<Rightarrow> ticket" where
  "small_ticket tid title description =
     empty_ticket\<lparr>t_id := Some tid, t_title := Some title, t_description := Some description\<rparr>"

definition ticket_login :: ticket where
  "ticket_login = small_ticket ''PROJ-1'' ''Login fails'' ''bad password''"

definition ticket_dark :: ticket where
  "ticket_dark = small_ticket ''PROJ-2'' ''Dark mode'' ''add dark theme soon please''"

definition small_tickets :: "ticket list" where
  "small_tickets = [ticket_login, ticket_dark]"

text \<open>A retriever over the seeded tickets file, with the given user name and token
  and the given remote side.\<close>

definition seeded_retriever :: "string option \<Rightarrow> (string \<Rightarrow> http_outcome) \<Rightarrow> retriever" where
  "seeded_retriever credential remote =
     \<lparr>api_url = ''https://api.jira.com'', username = credential, api_token = credential,
      tickets_file = Tickets sample_tickets, http_get = remote\<rparr>"

section \<open>Knowledge base (src/knowledge\_base/knowledge\_base.py)\<close>

text \<open>
  An article is a dictionary, with a field for each key the code reads (\<open>None\<close> when
  the key is absent); \<open>relevance_score\<close> is the key that \<open>search\<close> adds to its copies.
  The two settings of \<open>Config\<close> that \<open>search\<close> reads are a parameter.
\<close>

record article =
  a_id :: "string option"
  a_title :: "string option"
  a_content :: "string option"
  a_category :: "string option"
  a_tags :: "string list option"
  a_keywords :: "string list option"
  relevance_score :: "real option"

record config =
  MAX_SEARCH_RESULTS :: int
  SIMILARITY_THRESHOLD :: real

text \<open>The settings when the environment sets neither.\<close>

definition default_config :: config where
  "default_config = \<lparr>MAX_SEARCH_RESULTS = 5, SIMILARITY_THRESHOLD = 7 / 10\<rparr>"

text \<open>\<open>str(n)\<close> for a natural number.\<close>

fun str_nat :: "nat \<Rightarrow> string" where
  "str_nat n =
     (if n < 10 then [char_of (48 + n)]
      else str_nat (n div 10) @ [char_of (48 + n mod 10)])"

declare str_nat.simps [simp del]

text \<open>\<open>add_article\<close>: the new article is appended to \<open>self._articles\<close>; \<open>tags or []\<close>
  turns an absent tag list into the empty one.\<close>

definition add_article ::
    "article list \<Rightarrow> string \<Rightarrow> string \<Rightarrow> string \<Rightarrow> string list option \<Rightarrow> article list" where
  "add_article articles title content category tags =
     articles @
     [\<lparr>a_id = Some (''KB-'' @ str_nat (length articles + 1)),
       a_title = Some title,
       a_content = Some content,
       a_category = Some category,
       a_tags = Some (get_or tags []),
       a_keywords = Some (extract_keywords (title @ '' '' @ content) 3),
       relevance_score = None\<rparr>]"

text \<open>The score that the loop of \<open>search\<close> computes for one article.\<close>

definition article_score :: "string \<Rightarrow> article \<Rightarrow> real" where
  "article_score query article =
     (let query_lower = lower query;
          query_keywords = set (extract_keywords query 3);
          score = 0;
          score = (if sublist query_lower (lower (get_or (a_title article) []))
                   then score + 10 else score);
          content_sim = calculate_similarity query
             (get_or (a_title article) [] @ '' '' @ get_or (a_content article) []);
          score = score + content_sim * 5;
          article_keywords = set (get_or (a_keywords article) []);
          score = (if query_keywords \<noteq> {} \<and> article_keywords \<noteq> {}
                   then score +
                     real (card (query_keywords \<inter> article_keywords)) /
                     real (max (card query_keywords) 1) * 3
                   else score);
          article_tags = map lower (get_or (a_tags article) []);
          score = (if sublist query_lower (join_space article_tags) then score + 2 else score);
          score = (if sublist query_lower (lower (get_or (a_category article) []))
                   then score + 1 else score)
      in score)"

text \<open>
  \<open>search\<close>. \<open>max_results or Config.MAX_SEARCH_RESULTS\<close> takes the setting when
  \<open>max_results\<close> is \<open>None\<close> or 0. The results are copies of the articles with their
  score; \<open>sort(key=..., reverse=True)\<close> is stable.
\<close>

definition effective_max_results :: "config \<Rightarrow> int option \<Rightarrow> int" where
  "effective_max_results cfg max_results =
     (case max_results of
        None \<Rightarrow> MAX_SEARCH_RESULTS cfg
      | Some n \<Rightarrow> if n = 0 then MAX_SEARCH_RESULTS cfg else n)"

definition search :: "config \<Rightarrow> article list \<Rightarrow> string \<Rightarrow> int option \<Rightarrow> article list" where
  "search cfg articles query max_results =
     (if query = [] then []
      else
        let max_results = effective_max_results cfg max_results;
            results =
              concat (map (\<lambda>article.
                  let score = article_score query article
                  in if 0 < score then [article\<lparr>relevance_score := Some score\<rparr>] else [])
                articles);
            results = sort_key (\<lambda>x. - get_or (relevance_score x) 0) results;
            threshold = SIMILARITY_THRESHOLD cfg;
            filtered_results =
              filter (\<lambda>r. threshold \<le> get_or (relevance_score r) 0) results
        in slice_to filtered_results max_results)"

section \<open>Response composition (src/agent/customer\_support\_agent.py)\<close>

text \<open>
  The lines that \<open>_generate_response\<close> appends to \<open>response_parts\<close> for the knowledge
  base results: the heading, for each of the first three articles the numbered title
  line, the content line and possibly the marker line, and the closing empty line.
\<close>

definition article_lines :: "nat \<Rightarrow> article \<Rightarrow> string list" where
  "article_lines idx kb_article =
     (let title = get_or (a_title kb_article) ''Untitled'';
          content = take 300 (get_or (a_content kb_article) []);
          category = get_or (a_category kb_article) ''general''
      in [[CHR 0x0A] @ str_nat idx @ ''. **'' @ title @ ''** ('' @ category @ '')'',
          ''   '' @ content] @
         (if 300 \<le> length content then [''   ...''] else []))"

definition relevant_information :: "article list \<Rightarrow> string list" where
  "relevant_information knowledge_results =
     (if knowledge_results = [] then []
      else [''**Relevant Information:**''] @
           concat (map (\<lambda>(idx, kb_article). article_lines idx kb_article)
                     (zip [1..<4] (take 3 knowledge_results))) @
           [[]])"

text \<open>An article with the given title and content, in the category \<open>general\<close>, without
  tags and with the keywords of title and content, for the examples.\<close>

definition plain_article :: "string \<Rightarrow> string \<Rightarrow> article" where
  "plain_article title content =
     \<lparr>a_id = None, a_title = Some title, a_content = Some content,
      a_category = Some ''general'', a_tags = Some [],
      a_keywords = Some (extract_keywords (title @ '' '' @ content) 3),
      relevance_score = None\<rparr>"

text \<open>A store filled by five calls of \<open>add_article\<close>, for the examples: each title has
  \<open>cat\<close> inside a longer word.\<close>

definition cat_store :: "article list" where
  "cat_store =
     foldl (\<lambda>articles title. add_article articles title ''text'' ''general'' None) []
       [''Concatenate'', ''Location'', ''Vacation'', ''Education'', ''Catalog'']"

section \<open>Facts about the text processing\<close>

lemma of_char_lower_char:
  "is_upper c \<Longrightarrow> (of_char (lower_char c) :: nat) = of_char c + 32"
  by (simp add: lower_char_def is_upper_def)

lemma lower_char_not_upper: "\<not> is_upper (lower_char c)"
proof (cases "is_upper c")
  case True
  then show ?thesis
    using of_char_lower_char [OF True] by (simp add: is_upper_def)
next
  case False
  then show ?thesis by (simp add: lower_char_def)
qed

lemma lower_char_idem: "\<not> is_upper c \<Longrightarrow> lower_char c = c"
  by (simp add: lower_char_def)

lemma lower_idem: "\<forall>c\<in>set s. \<not> is_upper c \<Longrightarrow> lower s = s"
  by (simp add: lower_def lower_char_idem map_idI)

lemma lower_lower: "lower (lower s) = lower s"
  by (rule lower_idem) (simp add: lower_def lower_char_not_upper)

lemma lower_append: "lower (a @ b) = lower a @ lower b"
  by (simp add: lower_def)

lemma is_word_lower_char: "is_word (lower_char c) = is_word c"
proof (cases "is_upper c")
  case True
  then have "is_lower (lower_char c)"
    using of_char_lower_char [OF True] by (simp add: is_upper_def is_lower_def)
  with True show ?thesis by (simp add: is_word_def)
next
  case False
  then show ?thesis by (simp add: lower_char_def)
qed

lemma space_not_word: "\<not> is_word (CHR '' '')"
  by (simp add: is_word_def is_upper_def is_lower_def is_digit_def)

lemma space_not_upper: "\<not> is_upper (CHR '' '')"
  by (simp add: is_upper_def)

lemma findall_words_Nil: "findall_words [] = []"
  by (simp add: findall_words.simps)

lemma findall_words_skip: "\<not> is_word c \<Longrightarrow> findall_words (c # s) = findall_words s"
  by (subst findall_words.simps, subst (2) findall_words.simps) simp

lemma findall_words_take:
  "is_word c \<Longrightarrow>
   findall_words (c # s) = (c # takeWhile is_word s) # findall_words (dropWhile is_word s)"
  by (subst findall_words.simps) simp

lemma takeWhile_append_stop: "\<not> P c \<Longrightarrow> takeWhile P (a @ c # b) = takeWhile P a"
  by (induction a) auto

lemma dropWhile_append_stop: "\<not> P c \<Longrightarrow> dropWhile P (a @ c # b) = dropWhile P a @ c # b"
  by (induction a) auto

lemma findall_words_append:
  "\<not> is_word c \<Longrightarrow> findall_words (a @ c # b) = findall_words a @ findall_words b"
proof (induction "length a" arbitrary: a rule: less_induct)
  case less
  show ?case
  proof (cases a)
    case Nil
    with less.prems show ?thesis by (simp add: findall_words_Nil findall_words_skip)
  next
    case (Cons x a')
    show ?thesis
    proof (cases "is_word x")
      case False
      with less Cons show ?thesis by (simp add: findall_words_skip)
    next
      case True
      have "length (dropWhile is_word a') < length a"
        using Cons length_dropWhile_le [of is_word a'] by simp
      then have "findall_words (dropWhile is_word a' @ c # b) =
                 findall_words (dropWhile is_word a') @ findall_words b"
        using less by blast
      with True Cons less.prems show ?thesis
        by (simp add: findall_words_take takeWhile_append_stop dropWhile_append_stop)
    qed
  qed
qed

lemma findall_words_token:
  assumes "is_token t"
  shows "findall_words t = [t]"
proof (cases t)
  case Nil
  with assms show ?thesis by (simp add: is_token_def)
next
  case (Cons x t')
  with assms have w: "is_word x" and all: "\<forall>c\<in>set t'. is_word c"
    by (simp_all add: is_token_def)
  from all have tw: "takeWhile is_word t' = t'" and dw: "dropWhile is_word t' = []"
    by simp_all
  have "findall_words (x # t') = (x # t') # findall_words []"
    using findall_words_take [OF w, of t'] unfolding tw dw .
  with Cons show ?thesis
    by (simp add: findall_words_Nil)
qed

lemma findall_words_join:
  "\<forall>w\<in>set ws. is_token w \<Longrightarrow> findall_words (join_space ws) = ws"
proof (induction ws rule: join_space.induct)
  case 1
  show ?case by (simp add: findall_words_Nil)
next
  case (2 w)
  then show ?case by (simp add: findall_words_token)
next
  case (3 w v ws)
  then show ?case
    by (simp add: findall_words_append space_not_word findall_words_token)
qed

lemma findall_words_tokens:
  "t \<in> set (findall_words s) \<Longrightarrow> is_token t \<and> set t \<subseteq> set s"
proof (induction "length s" arbitrary: s rule: less_induct)
  case less
  show ?case
  proof (cases s)
    case Nil
    with less.prems show ?thesis by (simp add: findall_words_Nil)
  next
    case (Cons x s')
    show ?thesis
    proof (cases "is_word x")
      case False
      with less Cons show ?thesis by (auto simp: findall_words_skip)
    next
      case True
      have len: "length (dropWhile is_word s') < length s"
        using Cons length_dropWhile_le [of is_word s'] by simp
      from less.prems True Cons
      consider "t = x # takeWhile is_word s'" | "t \<in> set (findall_words (dropWhile is_word s'))"
        by (auto simp: findall_words_take)
      then show ?thesis
      proof cases
        case 1
        with True Cons show ?thesis
          by (auto simp: is_token_def dest: set_takeWhileD)
      next
        case 2
        then have "is_token t \<and> set t \<subseteq> set (dropWhile is_word s')"
          using less.hyps [OF len] by blast
        with Cons show ?thesis
          using set_dropWhileD [of _ is_word s'] by auto
      qed
    qed
  qed
qed


subsection \<open>The counter\<close>

lemma keys_counter_add:
  "map fst (counter_add cs w) = (if w \<in> set (map fst cs) then map fst cs else map fst cs @ [w])"
  by (induction cs w rule: counter_add.induct) auto

lemma map_of_counter_add:
  "map_of (counter_add cs w) v =
     (if v = w then Some (case map_of cs w of None \<Rightarrow> 1 | Some c \<Rightarrow> c + 1) else map_of cs v)"
  by (induction cs w rule: counter_add.induct) auto

lemma first_occurrences_set: "set (first_occurrences xs) = set xs"
  by (induction xs) auto

lemma first_occurrences_distinct: "distinct (first_occurrences xs)"
  by (induction xs) (auto simp: first_occurrences_set)

lemma first_occurrences_id: "distinct xs \<Longrightarrow> first_occurrences xs = xs"
proof (induction xs)
  case Nil
  show ?case by simp
next
  case (Cons x xs)
  then have "filter (\<lambda>y. y \<noteq> x) xs = xs"
    by (auto intro: filter_True)
  with Cons show ?case by simp
qed

lemma keys_foldl_counter_add:
  "map fst (foldl counter_add cs ws) =
     map fst cs @ filter (\<lambda>w. w \<notin> set (map fst cs)) (first_occurrences ws)"
proof (induction ws arbitrary: cs)
  case Nil
  show ?case by simp
next
  case (Cons w ws)
  show ?case
  proof (cases "w \<in> set (map fst cs)")
    case True
    then have "filter (\<lambda>v. v \<notin> set (map fst cs)) (filter (\<lambda>y. y \<noteq> w) (first_occurrences ws)) =
               filter (\<lambda>v. v \<notin> set (map fst cs)) (first_occurrences ws)"
      by (auto intro: filter_cong)
    with True show ?thesis
      by (simp add: Cons.IH keys_counter_add)
  next
    case False
    have "filter (\<lambda>v. v \<notin> set (map fst cs) \<and> v \<noteq> w) (first_occurrences ws) =
          filter (\<lambda>v. v \<notin> set (map fst cs)) (filter (\<lambda>y. y \<noteq> w) (first_occurrences ws))"
      by (auto intro: filter_cong)
    with False show ?thesis
      by (simp add: Cons.IH keys_counter_add)
  qed
qed

lemma map_of_foldl_counter_add:
  "map_of (foldl counter_add cs ws) v =
     (if v \<in> set ws
      then Some ((case map_of cs v of None \<Rightarrow> 0 | Some c \<Rightarrow> c) + count_list ws v)
      else map_of cs v)"
proof (induction ws arbitrary: cs)
  case Nil
  show ?case by simp
next
  case (Cons w ws)
  show ?case
    by (simp add: Cons.IH map_of_counter_add split: option.splits)
qed

lemma assoc_list_by_keys:
  "distinct (map fst cs) \<Longrightarrow> cs = map (\<lambda>k. (k, the (map_of cs k))) (map fst cs)"
proof (induction cs)
  case Nil
  show ?case by simp
next
  case (Cons p cs)
  obtain k c where p: "p = (k, c)" by (cases p)
  from Cons.prems p have notin: "k \<notin> set (map fst cs)" and dist: "distinct (map fst cs)"
    by simp_all
  have "map (\<lambda>j. (j, the (map_of (p # cs) j))) (map fst cs) =
        map (\<lambda>j. (j, the (map_of cs j))) (map fst cs)"
    using notin p by (intro map_cong) auto
  with Cons.IH [OF dist] p show ?case by simp
qed

lemma Counter_eq:
  "Counter ws = map (\<lambda>w. (w, count_list ws w)) (first_occurrences ws)"
proof -
  have keys: "map fst (Counter ws) = first_occurrences ws"
    by (simp add: Counter_def keys_foldl_counter_add)
  then have "distinct (map fst (Counter ws))"
    by (simp add: first_occurrences_distinct)
  then have "Counter ws = map (\<lambda>k. (k, the (map_of (Counter ws) k))) (map fst (Counter ws))"
    by (rule assoc_list_by_keys)
  also have "\<dots> = map (\<lambda>k. (k, the (map_of (Counter ws) k))) (first_occurrences ws)"
    by (simp only: keys)
  also have "\<dots> = map (\<lambda>w. (w, count_list ws w)) (first_occurrences ws)"
    by (intro map_cong) (auto simp: Counter_def map_of_foldl_counter_add first_occurrences_set)
  finally show ?thesis .
qed

lemma insort_key_map:
  "insort_key k (h x) (map h xs) = map h (insort_key (\<lambda>y. k (h y)) x xs)"
  by (induction xs) auto

lemma sort_key_map: "sort_key k (map h xs) = map h (sort_key (\<lambda>y. k (h y)) xs)"
  by (induction xs) (auto simp: insort_key_map)

text \<open>The keywords are the first occurrences of the kept words, stably sorted by
  descending count.\<close>

lemma extract_keywords_eq:
  "extract_keywords text n =
     sort_key (\<lambda>w. - int (count_list (keyword_occurrences text n) w))
       (first_occurrences (keyword_occurrences text n))"
  by (simp add: extract_keywords_def most_common_def Counter_eq sort_key_map comp_def)

lemma sort_key_const: "(\<And>x. x \<in> set xs \<Longrightarrow> f x = k) \<Longrightarrow> sort_key f xs = xs"
proof (induction xs)
  case Nil
  show ?case by simp
next
  case (Cons x xs)
  then have "sort_key f xs = xs" by simp
  moreover have "insort_key f x xs = x # xs"
    using Cons.prems by (cases xs) auto
  ultimately show ?case by simp
qed


subsection \<open>Keywords\<close>

lemma count_list_filter: "count_list (filter P xs) x = (if P x then count_list xs x else 0)"
  by (induction xs) auto

lemma count_list_distinct: "distinct xs \<Longrightarrow> x \<in> set xs \<Longrightarrow> count_list xs x = 1"
  by (induction xs) auto

lemma set_join_space: "set (join_space ws) \<subseteq> \<Union> (set ` set ws) \<union> {CHR '' ''}"
  by (induction ws rule: join_space.induct) auto

lemma set_extract_keywords:
  "set (extract_keywords text n) = set (keyword_occurrences text n)"
  by (simp add: extract_keywords_eq first_occurrences_set)

lemma distinct_extract_keywords: "distinct (extract_keywords text n)"
  by (simp add: extract_keywords_eq first_occurrences_distinct)

lemma keyword_occurrence_props:
  assumes "w \<in> set (keyword_occurrences text n)"
  shows "is_token w" and "\<forall>c\<in>set w. \<not> is_upper c"
    and "n \<le> int (length w)" and "w \<notin> set stop_words"
proof -
  from assms have mem: "w \<in> set (findall_words (lower text))"
    and len: "n \<le> int (length w)" and stop: "w \<notin> set stop_words"
    by (simp_all add: keyword_occurrences_def)
  from findall_words_tokens [OF mem] have tok: "is_token w" and sub: "set w \<subseteq> set (lower text)"
    by simp_all
  show "is_token w" by (rule tok)
  show "\<forall>c\<in>set w. \<not> is_upper c"
    using sub by (auto simp: lower_def lower_char_not_upper)
  show "n \<le> int (length w)" by (rule len)
  show "w \<notin> set stop_words" by (rule stop)
qed

lemma keyword_frequency:
  "w \<in> set (keyword_occurrences text n) \<Longrightarrow>
   count_list (keyword_occurrences text n) w = frequency text w"
  by (simp add: keyword_occurrences_def frequency_def count_list_filter)

text \<open>A list of distinct keywords, joined by spaces, is read back as it is.\<close>

lemma keyword_occurrences_join:
  assumes "\<forall>w\<in>set ks. is_token w \<and> (\<forall>c\<in>set w. \<not> is_upper c) \<and>
             n \<le> int (length w) \<and> w \<notin> set stop_words"
  shows "keyword_occurrences (join_space ks) n = ks"
proof -
  have "\<forall>c\<in>set (join_space ks). \<not> is_upper c"
    using assms set_join_space [of ks] space_not_upper by auto
  then have "lower (join_space ks) = join_space ks"
    by (rule lower_idem)
  moreover have "findall_words (join_space ks) = ks"
    using assms by (simp add: findall_words_join)
  ultimately show ?thesis
    using assms by (simp add: keyword_occurrences_def filter_id_conv)
qed

lemma extract_keywords_of_keywords:
  assumes "distinct ks"
    and "\<forall>w\<in>set ks. is_token w \<and> (\<forall>c\<in>set w. \<not> is_upper c) \<and>
             n \<le> int (length w) \<and> w \<notin> set stop_words"
  shows "extract_keywords (join_space ks) n = ks"
proof -
  have occ: "keyword_occurrences (join_space ks) n = ks"
    using assms(2) by (rule keyword_occurrences_join)
  have "sort_key (\<lambda>w. - int (count_list ks w)) ks = ks"
    by (rule sort_key_const [where k = "- 1"]) (simp add: count_list_distinct assms(1))
  then show ?thesis
    by (simp add: extract_keywords_eq occ first_occurrences_id assms(1))
qed

lemma extract_keywords_join:
  "extract_keywords (join_space (extract_keywords text n)) n = extract_keywords text n"
proof (rule extract_keywords_of_keywords)
  show "distinct (extract_keywords text n)" by (rule distinct_extract_keywords)
  show "\<forall>w\<in>set (extract_keywords text n). is_token w \<and> (\<forall>c\<in>set w. \<not> is_upper c) \<and>
          n \<le> int (length w) \<and> w \<notin> set stop_words"
    using keyword_occurrence_props by (simp add: set_extract_keywords)
qed

lemma extract_keywords_sorted:
  "sorted_wrt (\<lambda>v w. frequency text w \<le> frequency text v) (extract_keywords text n)"
proof -
  let ?occ = "keyword_occurrences text n"
  have "sorted (map (\<lambda>w. - int (count_list ?occ w)) (extract_keywords text n))"
    by (simp add: extract_keywords_eq)
  then have "sorted_wrt (\<lambda>v w. count_list ?occ w \<le> count_list ?occ v) (extract_keywords text n)"
    by (simp add: sorted_map)
  then show ?thesis
  proof (rule sorted_wrt_mono_rel [rotated])
    fix v w
    assume "v \<in> set (extract_keywords text n)" "w \<in> set (extract_keywords text n)"
      and "count_list ?occ w \<le> count_list ?occ v"
    then show "frequency text w \<le> frequency text v"
      by (simp add: set_extract_keywords keyword_frequency)
  qed
qed

lemma extract_keywords_ties:
  "filter (\<lambda>w. frequency text w = k) (extract_keywords text n) =
   filter (\<lambda>w. frequency text w = k) (first_occurrences (keyword_occurrences text n))"
proof -
  let ?occ = "keyword_occurrences text n"
  let ?key = "\<lambda>w. - int (count_list ?occ w)"
  have "filter (\<lambda>w. frequency text w = k) (extract_keywords text n) =
        filter (\<lambda>w. ?key w = - int k) (extract_keywords text n)"
    by (rule filter_cong) (auto simp: set_extract_keywords keyword_frequency)
  also have "\<dots> = filter (\<lambda>w. ?key w = - int k) (first_occurrences ?occ)"
    by (simp only: extract_keywords_eq sort_key_stable)
  also have "\<dots> = filter (\<lambda>w. frequency text w = k) (first_occurrences ?occ)"
    by (rule filter_cong) (auto simp: first_occurrences_set keyword_frequency)
  finally show ?thesis .
qed

text \<open>
  Claim C7. \<open>extract_keywords\<close> is idempotent: applied to its own output joined by
  spaces it yields the same set of keywords. Its output is a list without repetitions of
  lowercase words (non-empty runs of word characters) of length at least \<open>min_length\<close>
  that are no stop words, in the order of descending frequency; among keywords of the
  same frequency the order is that of their first occurrence in the text.
\<close>

theorem extract_keywords_idempotent:
  "set (extract_keywords (join_space (extract_keywords text n)) n) = set (extract_keywords text n)
   \<and> distinct (extract_keywords text n)
   \<and> (\<forall>w\<in>set (extract_keywords text n).
        w \<noteq> [] \<and> (\<forall>c\<in>set w. is_word c \<and> \<not> is_upper c) \<and>
        n \<le> int (length w) \<and> w \<notin> set stop_words)
   \<and> sorted_wrt (\<lambda>v w. frequency text w \<le> frequency text v) (extract_keywords text n)
   \<and> (\<forall>k. filter (\<lambda>w. frequency text w = k) (extract_keywords text n) =
           filter (\<lambda>w. frequency text w = k) (first_occurrences (keyword_occurrences text n)))"
proof -
  have "\<forall>w\<in>set (extract_keywords text n).
        w \<noteq> [] \<and> (\<forall>c\<in>set w. is_word c \<and> \<not> is_upper c) \<and>
        n \<le> int (length w) \<and> w \<notin> set stop_words"
    using keyword_occurrence_props [of _ "text" n]
    by (auto simp: set_extract_keywords is_token_def)
  then show ?thesis
    using extract_keywords_join [of "text" n] distinct_extract_keywords [of "text" n]
      extract_keywords_sorted [of "text" n] extract_keywords_ties [of "text" _ n]
    by simp
qed

text \<open>The theorem at a text with repeated words, stop words and mixed case.\<close>

theorem extract_keywords_idempotent_witness:
  "extract_keywords ''The cat saw the Dog; the dog saw a cat, a DOG.'' 3 = [''dog'', ''cat'', ''saw'']
   \<and> set (extract_keywords (join_space [''dog'', ''cat'', ''saw'']) 3) = {''dog'', ''cat'', ''saw''}
   \<and> ''dog'' \<notin> set stop_words \<and> 3 \<le> int (length ''dog'')"
proof -
  have e: "extract_keywords ''The cat saw the Dog; the dog saw a cat, a DOG.'' 3 =
           [''dog'', ''cat'', ''saw'']"
    by code_simp
  have s: "set [''dog'', ''cat'', ''saw''] = {''dog'', ''cat'', ''saw''}"
    by simp
  have "set (extract_keywords (join_space [''dog'', ''cat'', ''saw'']) 3) = {''dog'', ''cat'', ''saw''}
    \<and> (\<forall>w\<in>{''dog'', ''cat'', ''saw''}.
        w \<noteq> [] \<and> (\<forall>c\<in>set w. is_word c \<and> \<not> is_upper c) \<and>
        3 \<le> int (length w) \<and> w \<notin> set stop_words)"
    using extract_keywords_idempotent [of "''The cat saw the Dog; the dog saw a cat, a DOG.''" 3]
    unfolding e s by blast
  with e show ?thesis by blast
qed

subsection \<open>Similarity\<close>

lemma calculate_similarity_eq:
  "calculate_similarity a b =
     (if extract_keywords a 3 = [] \<or> extract_keywords b 3 = [] then 0
      else jaccard (set (extract_keywords a 3)) (set (extract_keywords b 3)))"
  by (simp add: calculate_similarity_def jaccard_def Let_def)

lemma jaccard_bounds:
  assumes "finite A" "finite B"
  shows "0 \<le> jaccard A B" and "jaccard A B \<le> 1"
proof -
  show "0 \<le> jaccard A B" by (simp add: jaccard_def)
  have "card (A \<inter> B) \<le> card (A \<union> B)"
    using assms by (intro card_mono) auto
  then show "jaccard A B \<le> 1"
    by (cases "card (A \<union> B) = 0") (simp_all add: jaccard_def divide_le_eq_1)
qed

lemma jaccard_self: "finite A \<Longrightarrow> A \<noteq> {} \<Longrightarrow> jaccard A A = 1"
  by (simp add: jaccard_def)

lemma calculate_similarity_bounds:
  "0 \<le> calculate_similarity a b" "calculate_similarity a b \<le> 1"
  by (simp_all add: calculate_similarity_eq jaccard_bounds)

text \<open>
  Claim C3. \<open>calculate_similarity\<close> is the Jaccard index of the keyword sets of the two
  texts and lies between 0 and 1; it is 0 when a text has no keyword, and the
  similarity of a text that has a keyword with itself is 1.
\<close>

theorem calculate_similarity_jaccard:
  "calculate_similarity a b =
     (if set (extract_keywords a 3) = {} \<or> set (extract_keywords b 3) = {} then 0
      else jaccard (set (extract_keywords a 3)) (set (extract_keywords b 3)))
   \<and> 0 \<le> calculate_similarity a b \<and> calculate_similarity a b \<le> 1
   \<and> (set (extract_keywords a 3) \<noteq> {} \<longrightarrow> calculate_similarity a a = 1)"
  using calculate_similarity_bounds [of a b]
  by (simp add: calculate_similarity_eq jaccard_self)

text \<open>Two texts that share one of three keywords, a text with itself, and a text of stop
  words only.\<close>

theorem calculate_similarity_jaccard_witness:
  "extract_keywords ''Reset the password'' 3 = [''reset'', ''password'']
   \<and> calculate_similarity ''Reset the password'' ''password help'' = 1 / 3
   \<and> calculate_similarity ''Reset the password'' ''Reset the password'' = 1
   \<and> calculate_similarity ''Reset the password'' ''is it on'' = 0"
proof -
  have k: "extract_keywords ''Reset the password'' 3 = [''reset'', ''password'']"
    by code_simp
  have v: "calculate_similarity ''Reset the password'' ''password help'' = 1 / 3"
    by code_simp
  have z: "calculate_similarity ''Reset the password'' ''is it on'' = 0"
    by code_simp
  have "calculate_similarity ''Reset the password'' ''Reset the password'' = 1"
    using calculate_similarity_jaccard [of "''Reset the password''" "''Reset the password''"]
    unfolding k by simp
  with k v z show ?thesis by blast
qed

subsection \<open>Ticket references\<close>

lemma match_here_prefix: "match_here p s = Some m \<Longrightarrow> \<exists>post. s = m @ post"
  by (induction p s arbitrary: m rule: match_here.induct)
     (auto split: if_splits option.splits)

lemma match_here_atoms:
  "match_here p s = Some m \<Longrightarrow> c \<in> set m \<Longrightarrow> \<exists>a\<in>atom_of ` set p. atom_matches a c"
proof (induction p s arbitrary: m rule: match_here.induct)
  case (1 s)
  then show ?case by simp
next
  case (2 a p)
  then show ?case by simp
next
  case (3 a p x s)
  from "3.prems" obtain m' where ok: "atom_matches a x" and m': "match_here p s = Some m'"
    and m: "m = x # m'"
    by (auto split: if_splits)
  show ?case
  proof (cases "c = x")
    case True
    with ok show ?thesis by auto
  next
    case False
    with m "3.prems" have "c \<in> set m'" by simp
    from "3.IH" [OF ok m' this] show ?thesis by auto
  qed
next
  case (4 a p)
  then show ?case by simp
next
  case (5 a p x s)
  from "5.prems" have ok: "atom_matches a x" by (auto split: if_splits)
  show ?case
  proof (cases "match_here (Plus a # p) s")
    case (Some m')
    with "5.prems" ok have m: "m = x # m'" by simp
    show ?thesis
    proof (cases "c = x")
      case True
      with ok show ?thesis by auto
    next
      case False
      with m "5.prems" have "c \<in> set m'" by simp
      from "5.IH"(1) [OF ok Some this] show ?thesis by auto
    qed
  next
    case None
    with "5.prems" ok obtain m' where m': "match_here p s = Some m'" and m: "m = x # m'"
      by auto
    show ?thesis
    proof (cases "c = x")
      case True
      with ok show ?thesis by auto
    next
      case False
      with m "5.prems" have "c \<in> set m'" by simp
      from "5.IH"(2) [OF ok None m' this] show ?thesis by auto
    qed
  qed
qed

lemma lower_char_hash: "lower_char c = CHR ''#'' \<longleftrightarrow> c = CHR ''#''"
proof (cases "is_upper c")
  case True
  then have "(of_char (lower_char c) :: nat) \<noteq> of_char (CHR ''#'')"
    using of_char_lower_char [OF True] True by (simp add: is_upper_def)
  then have "lower_char c \<noteq> CHR ''#''" by metis
  moreover from True have "c \<noteq> CHR ''#''" by (auto simp: is_upper_def)
  ultimately show ?thesis by simp
next
  case False
  then show ?thesis by (simp add: lower_char_def)
qed

lemma atom_matches_hash: "atom_matches a (CHR ''#'') \<longleftrightarrow> a = Lit (CHR ''#'')"
proof (cases a)
  case (Lit x)
  have "lower_char (CHR ''#'') = CHR ''#''"
    by (simp add: lower_char_def is_upper_def)
  then show ?thesis
    using Lit lower_char_hash [of x] by auto
next
  case Letter
  then show ?thesis by (simp add: is_upper_def is_lower_def)
next
  case Digit
  then show ?thesis by (simp add: is_digit_def)
qed

lemma match_here_no_hash:
  assumes "match_here p s = Some m" and "Lit (CHR ''#'') \<notin> atom_of ` set p"
  shows "CHR ''#'' \<notin> set m"
proof
  assume "CHR ''#'' \<in> set m"
  with match_here_atoms [OF assms(1)]
  obtain a where "a \<in> atom_of ` set p" "atom_matches a (CHR ''#'')" by blast
  with assms(2) show False by (simp add: atom_matches_hash)
qed

lemma no_hash_strip: "CHR ''#'' \<notin> set m \<Longrightarrow> filter (\<lambda>c. c \<noteq> CHR ''#'') m = strip_hash m"
  by (cases m) (auto intro: filter_True)

lemma leading_hash_strip:
  assumes "match_here (One (Lit (CHR ''#'')) # p) s = Some m"
    and "Lit (CHR ''#'') \<notin> atom_of ` set p"
  shows "filter (\<lambda>c. c \<noteq> CHR ''#'') m = strip_hash m"
proof (cases s)
  case Nil
  with assms(1) show ?thesis by simp
next
  case (Cons c s')
  with assms(1) obtain m' where c: "atom_matches (Lit (CHR ''#'')) c"
    and m': "match_here p s' = Some m'" and m: "m = c # m'"
    by (auto split: if_splits)
  from c have "c = CHR ''#''"
    by (simp add: lower_char_hash [of c, symmetric] lower_char_def is_upper_def)
  moreover have "CHR ''#'' \<notin> set m'"
    using m' assms(2) by (rule match_here_no_hash)
  ultimately show ?thesis
    using m by (auto simp: filter_id_conv)
qed

lemma patterns_strip:
  assumes "p \<in> set patterns" and "match_here p s = Some m"
  shows "filter (\<lambda>c. c \<noteq> CHR ''#'') m = strip_hash m"
proof -
  from assms(1) consider
      "p = [Plus Letter, One (Lit CHR ''-''), Plus Digit]"
    | "p = [One (Lit CHR ''#''), Plus Letter, One (Lit CHR ''-''), Plus Digit]"
    | "p = [One (Lit CHR ''T''), One (Lit CHR ''I''), One (Lit CHR ''C''), One (Lit CHR ''K''),
            One (Lit CHR ''E''), One (Lit CHR ''T''), One (Lit CHR ''-''), Plus Digit]"
    | "p = [One (Lit CHR ''#''), Plus Digit]"
    by (auto simp: patterns_def)
  then show ?thesis
  proof cases
    case 1
    with assms(2) have "CHR ''#'' \<notin> set m"
      by (intro match_here_no_hash [of p s m]) simp_all
    then show ?thesis by (rule no_hash_strip)
  next
    case 2
    show ?thesis
    proof (rule leading_hash_strip [of "[Plus Letter, One (Lit CHR ''-''), Plus Digit]" s m])
      show "match_here (One (Lit CHR ''#'') # [Plus Letter, One (Lit CHR ''-''), Plus Digit]) s =
            Some m"
        using assms(2) 2 by simp
      show "Lit CHR ''#'' \<notin> atom_of ` set [Plus Letter, One (Lit CHR ''-''), Plus Digit]"
        by simp
    qed
  next
    case 3
    with assms(2) have "CHR ''#'' \<notin> set m"
      by (intro match_here_no_hash [of p s m]) simp_all
    then show ?thesis by (rule no_hash_strip)
  next
    case 4
    show ?thesis
    proof (rule leading_hash_strip [of "[Plus Digit]" s m])
      show "match_here (One (Lit CHR ''#'') # [Plus Digit]) s = Some m"
        using assms(2) 4 by simp
      show "Lit CHR ''#'' \<notin> atom_of ` set [Plus Digit]"
        by simp
    qed
  qed
qed

lemma re_search_leftmost:
  "re_search p s = Some m \<Longrightarrow>
   \<exists>pre post. s = pre @ m @ post \<and> match_here p (m @ post) = Some m \<and>
     (\<forall>i<length pre. match_here p (drop i s) = None)"
proof (induction s)
  case Nil
  then have "m = []" using match_here_prefix [of p "[]" m] by simp
  with Nil show ?case by simp
next
  case (Cons c s)
  show ?case
  proof (cases "match_here p (c # s)")
    case (Some m')
    with Cons.prems have eq: "m' = m" by simp
    from match_here_prefix [OF Some] eq obtain post where "c # s = m @ post" by blast
    with Some eq have "c # s = [] @ m @ post \<and> match_here p (m @ post) = Some m \<and>
        (\<forall>i<length ([]::string). match_here p (drop i (c # s)) = None)"
      by simp
    then show ?thesis by blast
  next
    case None
    with Cons.prems have "re_search p s = Some m" by simp
    from Cons.IH [OF this] obtain pre post where s: "s = pre @ m @ post"
      and mh: "match_here p (m @ post) = Some m"
      and none: "\<forall>i<length pre. match_here p (drop i s) = None"
      by blast
    have "\<forall>i<length (c # pre). match_here p (drop i (c # s)) = None"
    proof (intro allI impI)
      fix i assume "i < length (c # pre)"
      then show "match_here p (drop i (c # s)) = None"
        using None none by (cases i) auto
    qed
    with s mh have "c # s = (c # pre) @ m @ post \<and> match_here p (m @ post) = Some m \<and>
        (\<forall>i<length (c # pre). match_here p (drop i (c # s)) = None)"
      by simp
    then show ?thesis by blast
  qed
qed

lemma re_search_None:
  "re_search p s = None \<longleftrightarrow> (\<forall>i\<le>length s. match_here p (drop i s) = None)"
proof (induction s)
  case Nil
  show ?case by simp
next
  case (Cons c s)
  have "(\<forall>i\<le>length (c # s). match_here p (drop i (c # s)) = None) \<longleftrightarrow>
        match_here p (c # s) = None \<and> (\<forall>i\<le>length s. match_here p (drop i s) = None)"
  proof
    assume a: "\<forall>i\<le>length (c # s). match_here p (drop i (c # s)) = None"
    then have "match_here p (drop 0 (c # s)) = None" by blast
    moreover have "\<forall>i\<le>length s. match_here p (drop i s) = None"
    proof (intro allI impI)
      fix i assume "i \<le> length s"
      then have "match_here p (drop (Suc i) (c # s)) = None" using a by auto
      then show "match_here p (drop i s) = None" by simp
    qed
    ultimately show "match_here p (c # s) = None \<and> (\<forall>i\<le>length s. match_here p (drop i s) = None)"
      by simp
  next
    assume a: "match_here p (c # s) = None \<and> (\<forall>i\<le>length s. match_here p (drop i s) = None)"
    show "\<forall>i\<le>length (c # s). match_here p (drop i (c # s)) = None"
    proof (intro allI impI)
      fix i assume "i \<le> length (c # s)"
      then show "match_here p (drop i (c # s)) = None"
        using a by (cases i) auto
    qed
  qed
  with Cons.IH show ?case by (auto split: option.splits)
qed

lemma try_patterns_first:
  "k < length ps \<Longrightarrow> \<forall>j<k. re_search (ps ! j) text = None \<Longrightarrow>
   re_search (ps ! k) text = Some m \<Longrightarrow>
   try_patterns ps text = upper (filter (\<lambda>c. c \<noteq> CHR ''#'') m)"
proof (induction ps arbitrary: k)
  case Nil
  then show ?case by simp
next
  case (Cons p ps)
  show ?case
  proof (cases k)
    case 0
    with Cons.prems show ?thesis by simp
  next
    case (Suc k')
    with Cons.prems have "re_search p text = None" by auto
    moreover have "try_patterns ps text = upper (filter (\<lambda>c. c \<noteq> CHR ''#'') m)"
    proof (rule Cons.IH [of k'])
      show "k' < length ps" using Cons.prems Suc by simp
      show "\<forall>j<k'. re_search (ps ! j) text = None"
        using Cons.prems(2) Suc by auto
      show "re_search (ps ! k') text = Some m" using Cons.prems(3) Suc by simp
    qed
    ultimately show ?thesis by simp
  qed
qed

lemma try_patterns_none:
  "\<forall>j<length ps. re_search (ps ! j) text = None \<Longrightarrow> try_patterns ps text = []"
proof (induction ps)
  case Nil
  show ?case by simp
next
  case (Cons p ps)
  then have "re_search p text = None" by auto
  moreover have "\<forall>j<length ps. re_search (ps ! j) text = None"
    using Cons.prems by auto
  ultimately show ?case using Cons.IH by simp
qed

lemma extract_ticket_reference_first:
  assumes "k < length patterns" and "\<forall>j<k. re_search (patterns ! j) text = None"
    and "re_search (patterns ! k) text = Some m"
  shows "extract_ticket_reference text = upper (strip_hash m)"
proof -
  from re_search_leftmost [OF assms(3)] obtain post where
    "match_here (patterns ! k) (m @ post) = Some m" by blast
  moreover have "patterns ! k \<in> set patterns" using assms(1) by simp
  ultimately have "filter (\<lambda>c. c \<noteq> CHR ''#'') m = strip_hash m"
    by (rule patterns_strip [rotated])
  then show ?thesis
    using try_patterns_first [OF assms] by (simp add: extract_ticket_reference_def)
qed

text \<open>
  Claim C4. \<open>extract_ticket_reference\<close> tries the four patterns LETTERS-DIGITS,
  #LETTERS-DIGITS, TICKET-DIGITS and #DIGITS in this order, ignoring case. The result is
  the match of the first pattern that matches anywhere in the text, uppercased and
  without its leading \<open>#\<close>; that match is the one at the leftmost position where the
  pattern matches. When no pattern matches at any position the result is the empty
  string. The text "What's the status of ticket PROJ-1001?" gives "PROJ-1001" and
  "no ticket here" gives the empty string.
\<close>

theorem extract_ticket_reference_priority:
  "(\<forall>k<length patterns.
      (\<forall>j<k. re_search (patterns ! j) text = None) \<and> re_search (patterns ! k) text = Some m
      \<longrightarrow> extract_ticket_reference text = upper (strip_hash m))
   \<and> ((\<forall>j<length patterns. re_search (patterns ! j) text = None)
        \<longrightarrow> extract_ticket_reference text = [])
   \<and> (re_search p text = Some m \<longrightarrow>
        (\<exists>pre post. text = pre @ m @ post \<and> match_here p (m @ post) = Some m \<and>
           (\<forall>i<length pre. match_here p (drop i text) = None)))
   \<and> (re_search p text = None \<longleftrightarrow> (\<forall>i\<le>length text. match_here p (drop i text) = None))
   \<and> extract_ticket_reference ''What's the status of ticket PROJ-1001?'' = ''PROJ-1001''
   \<and> extract_ticket_reference ''no ticket here'' = []"
proof -
  have a: "\<forall>k<length patterns.
      (\<forall>j<k. re_search (patterns ! j) text = None) \<and> re_search (patterns ! k) text = Some m
      \<longrightarrow> extract_ticket_reference text = upper (strip_hash m)"
    using extract_ticket_reference_first by blast
  have b: "(\<forall>j<length patterns. re_search (patterns ! j) text = None)
        \<longrightarrow> extract_ticket_reference text = []"
    using try_patterns_none [of patterns "text"] by (simp add: extract_ticket_reference_def)
  have c: "re_search p text = Some m \<longrightarrow>
        (\<exists>pre post. text = pre @ m @ post \<and> match_here p (m @ post) = Some m \<and>
           (\<forall>i<length pre. match_here p (drop i text) = None))"
    using re_search_leftmost by blast
  have d: "re_search p text = None \<longleftrightarrow> (\<forall>i\<le>length text. match_here p (drop i text) = None)"
    by (rule re_search_None)
  have e: "extract_ticket_reference ''What's the status of ticket PROJ-1001?'' = ''PROJ-1001''"
    by code_simp
  have f: "extract_ticket_reference ''no ticket here'' = []"
    by code_simp
  from a b c d e f show ?thesis by blast
qed

text \<open>A text whose only reference is of the fourth kind, in lower case context: the
  first three patterns match nowhere, the fourth matches \<open>#77\<close>.\<close>

theorem extract_ticket_reference_priority_witness:
  "length patterns = 4
   \<and> re_search (patterns ! 0) ''see #77 of proj'' = None
   \<and> re_search (patterns ! 1) ''see #77 of proj'' = None
   \<and> re_search (patterns ! 2) ''see #77 of proj'' = None
   \<and> re_search (patterns ! 3) ''see #77 of proj'' = Some ''#77''
   \<and> extract_ticket_reference ''see #77 of proj'' = ''77''"
proof -
  have l: "length patterns = 4" by (simp add: patterns_def)
  have n0: "re_search (patterns ! 0) ''see #77 of proj'' = None" by code_simp
  have n1: "re_search (patterns ! 1) ''see #77 of proj'' = None" by code_simp
  have n2: "re_search (patterns ! 2) ''see #77 of proj'' = None" by code_simp
  have s3: "re_search (patterns ! 3) ''see #77 of proj'' = Some ''#77''" by code_simp
  have "\<forall>j<3. re_search (patterns ! j) ''see #77 of proj'' = None"
  proof (intro allI impI)
    fix j :: nat assume "j < 3"
    then consider "j = 0" | "j = 1" | "j = 2" by linarith
    then show "re_search (patterns ! j) ''see #77 of proj'' = None"
      using n0 n1 n2 by cases simp_all
  qed
  then have none: "\<forall>j<3. re_search (patterns ! j) ''see #77 of proj'' = None" .
  have "3 < length patterns" using l by simp
  with conjunct1 [OF extract_ticket_reference_priority [of "''see #77 of proj''" "''#77''"]]
  have "(\<forall>j<3. re_search (patterns ! j) ''see #77 of proj'' = None) \<and>
        re_search (patterns ! 3) ''see #77 of proj'' = Some ''#77''
        \<longrightarrow> extract_ticket_reference ''see #77 of proj'' = upper (strip_hash ''#77'')"
    by blast
  with none s3 have "extract_ticket_reference ''see #77 of proj'' = upper (strip_hash ''#77'')"
    by blast
  moreover have "upper (strip_hash ''#77'') = ''77''" by code_simp
  ultimately show ?thesis using l n0 n1 n2 s3 by simp
qed

section \<open>Facts about the ticket retriever\<close>

lemma extract_keywords_empty: "extract_keywords [] n = []"
  by (simp add: extract_keywords_eq keyword_occurrences_def lower_def findall_words_Nil)

lemma calculate_similarity_empty: "calculate_similarity [] b = 0"
  by (simp add: calculate_similarity_eq extract_keywords_empty)

lemma extract_keywords_lower: "extract_keywords (lower s) n = extract_keywords s n"
  by (simp add: extract_keywords_def keyword_occurrences_def lower_lower)

lemma calculate_similarity_lower:
  "calculate_similarity q (lower a @ '' '' @ lower b) = calculate_similarity q (a @ '' '' @ b)"
proof -
  have "lower_char (CHR '' '') = CHR '' ''"
    by (simp add: lower_char_def is_upper_def)
  then have "lower a @ '' '' @ lower b = lower (a @ '' '' @ b)"
    by (simp add: lower_def)
  then show ?thesis
    by (simp only: calculate_similarity_def extract_keywords_lower)
qed

lemma ticket_score_caseless: "ticket_score q t = caseless_ticket_score q t"
  using calculate_similarity_lower [of q "get_or (t_title t) []" "get_or (t_description t) []"]
  by (simp add: ticket_score_def caseless_ticket_score_def Let_def)

lemma ticket_score_empty_query: "ticket_score [] t = 17"
  by (simp add: ticket_score_def Let_def lower_def calculate_similarity_empty)

lemma concat_map_if:
  "concat (map (\<lambda>x. if P x then [f x] else []) xs) = map f (filter P xs)"
  by (induction xs) auto

lemma search_tickets_eq:
  "search_tickets (Tickets ts) q n =
     slice_to (sort_key (\<lambda>x. - get_or (match_score x) 0)
       (map (\<lambda>t. t\<lparr>match_score := Some (ticket_score q t)\<rparr>)
          (filter (\<lambda>t. 0 < ticket_score q t) ts))) n"
  by (simp add: search_tickets_def Let_def concat_map_if)

lemma sorted_wrt_slice_to: "sorted_wrt R xs \<Longrightarrow> sorted_wrt R (slice_to xs n)"
  by (simp add: slice_to_def sorted_wrt_take)

lemma set_slice_to: "set (slice_to xs n) \<subseteq> set xs"
  by (auto simp: slice_to_def dest: in_set_takeD)

lemma length_slice_to: "0 \<le> n \<Longrightarrow> int (length (slice_to xs n)) \<le> n"
  by (simp add: slice_to_def)

text \<open>
  Claim C9. \<open>search_tickets\<close> has no guard for the empty query: the empty string is a
  substring of every id, title and description and has no keyword, so every stored
  ticket gets the score 17 = 10 + 5 + 2 + 0, and the result is all stored tickets in
  their stored order, cut to \<open>max_results\<close>.
\<close>

theorem search_tickets_empty_query:
  "ticket_score [] t = 17
   \<and> search_tickets (Tickets ts) [] n = slice_to (map (\<lambda>t. t\<lparr>match_score := Some 17\<rparr>) ts) n"
proof -
  have "sort_key (\<lambda>x. - get_or (match_score x) 0) (map (\<lambda>t. t\<lparr>match_score := Some 17\<rparr>) ts) =
        map (\<lambda>t. t\<lparr>match_score := Some 17\<rparr>) ts"
    by (rule sort_key_const [where k = "- 17"]) (auto simp: get_or_def)
  then show ?thesis
    by (simp add: search_tickets_eq ticket_score_empty_query)
qed

text \<open>The three seeded tickets and a limit of two: the first two come back, in their order.\<close>

theorem search_tickets_empty_query_witness:
  "search_tickets (Tickets sample_tickets) [] 2 =
     [(sample_tickets ! 0)\<lparr>match_score := Some 17\<rparr>, (sample_tickets ! 1)\<lparr>match_score := Some 17\<rparr>]"
proof -
  have "slice_to (map (\<lambda>t. t\<lparr>match_score := Some 17\<rparr>) sample_tickets) 2 =
        [(sample_tickets ! 0)\<lparr>match_score := Some 17\<rparr>, (sample_tickets ! 1)\<lparr>match_score := Some 17\<rparr>]"
    by (simp add: slice_to_def sample_tickets_def)
  then show ?thesis
    using search_tickets_empty_query [of _ sample_tickets 2] by simp
qed


text \<open>
  Claim C2, amended. \<open>search_tickets\<close> scores a ticket with 10 if the lowercased query
  is a substring of the lowercased id, plus 5 if it is a substring of the lowercased
  title, plus 2 if it is a substring of the lowercased description, plus three times
  the similarity of the query and title, space, description. Tickets whose score is
  not positive are dropped, the rest is sorted by descending score and cut to
  \<open>max_results\<close>. No threshold is applied: when \<open>max_results\<close> is at least the number
  of stored tickets, every ticket with a positive score is returned.
\<close>

theorem search_tickets_caseless:
  "search_tickets (Tickets ts) q n =
     slice_to (sort_key (\<lambda>x. - get_or (match_score x) 0)
       (map (\<lambda>t. t\<lparr>match_score := Some (caseless_ticket_score q t)\<rparr>)
          (filter (\<lambda>t. 0 < caseless_ticket_score q t) ts))) n
   \<and> (\<forall>r\<in>set (search_tickets (Tickets ts) q n).
         \<exists>t\<in>set ts. 0 < caseless_ticket_score q t \<and>
           r = t\<lparr>match_score := Some (caseless_ticket_score q t)\<rparr>)
   \<and> sorted_wrt (\<lambda>a b. get_or (match_score b) 0 \<le> get_or (match_score a) 0)
        (search_tickets (Tickets ts) q n)
   \<and> (0 \<le> n \<longrightarrow> int (length (search_tickets (Tickets ts) q n)) \<le> n)
   \<and> (int (length ts) \<le> n \<longrightarrow>
        set (search_tickets (Tickets ts) q n) =
        (\<lambda>t. t\<lparr>match_score := Some (caseless_ticket_score q t)\<rparr>) `
          {t \<in> set ts. 0 < caseless_ticket_score q t})"
proof -
  let ?key = "\<lambda>x. - get_or (match_score x) 0"
  let ?scored = "map (\<lambda>t. t\<lparr>match_score := Some (caseless_ticket_score q t)\<rparr>)
          (filter (\<lambda>t. 0 < caseless_ticket_score q t) ts)"
  have eq: "search_tickets (Tickets ts) q n = slice_to (sort_key ?key ?scored) n"
    by (simp add: search_tickets_eq ticket_score_caseless)
  have "set (search_tickets (Tickets ts) q n) \<subseteq> set ?scored"
    using set_slice_to [of "sort_key ?key ?scored" n] by (simp add: eq)
  then have mem: "\<forall>r\<in>set (search_tickets (Tickets ts) q n).
         \<exists>t\<in>set ts. 0 < caseless_ticket_score q t \<and>
           r = t\<lparr>match_score := Some (caseless_ticket_score q t)\<rparr>"
    by auto
  have "sorted (map ?key (sort_key ?key ?scored))"
    by (rule sorted_sort_key)
  then have "sorted_wrt (\<lambda>a b. get_or (match_score b) 0 \<le> get_or (match_score a) 0)
               (sort_key ?key ?scored)"
    by (simp add: sorted_map)
  then have srt: "sorted_wrt (\<lambda>a b. get_or (match_score b) 0 \<le> get_or (match_score a) 0)
               (search_tickets (Tickets ts) q n)"
    unfolding eq by (rule sorted_wrt_slice_to)
  have len: "0 \<le> n \<longrightarrow> int (length (search_tickets (Tickets ts) q n)) \<le> n"
    unfolding eq by (simp add: length_slice_to)
  have all: "int (length ts) \<le> n \<longrightarrow>
        set (search_tickets (Tickets ts) q n) =
        (\<lambda>t. t\<lparr>match_score := Some (caseless_ticket_score q t)\<rparr>) `
          {t \<in> set ts. 0 < caseless_ticket_score q t}"
  proof
    assume n: "int (length ts) \<le> n"
    have "length (filter (\<lambda>t. 0 < caseless_ticket_score q t) ts) \<le> length ts"
      by (rule length_filter_le)
    moreover have "length (sort_key ?key ?scored) =
                   length (filter (\<lambda>t. 0 < caseless_ticket_score q t) ts)"
      by simp
    ultimately have "length (sort_key ?key ?scored) \<le> nat n" and "0 \<le> n"
      using n by linarith+
    then have "slice_to (sort_key ?key ?scored) n = sort_key ?key ?scored"
      by (simp add: slice_to_def)
    then show "set (search_tickets (Tickets ts) q n) =
        (\<lambda>t. t\<lparr>match_score := Some (caseless_ticket_score q t)\<rparr>) `
          {t \<in> set ts. 0 < caseless_ticket_score q t}"
      by (simp add: eq)
  qed
  from eq mem srt len all show ?thesis by blast
qed

text \<open>A query that is a substring of no field of the two small tickets and shares one
  of six keywords with the second one: the ticket is returned with the score 1/2,
  below the threshold 0.7 of the article search.\<close>

theorem search_tickets_caseless_witness:
  "search_tickets (Tickets small_tickets) ''is dark'' 10 = [ticket_dark\<lparr>match_score := Some (1 / 2)\<rparr>]
   \<and> int (length (search_tickets (Tickets small_tickets) ''is dark'' 10)) \<le> 10
   \<and> set (search_tickets (Tickets small_tickets) ''is dark'' 10) =
        (\<lambda>t. t\<lparr>match_score := Some (caseless_ticket_score ''is dark'' t)\<rparr>) `
          {t \<in> set small_tickets. 0 < caseless_ticket_score ''is dark'' t}"
proof -
  have s1: "caseless_ticket_score ''is dark'' ticket_login = 0" by code_simp
  have s2: "caseless_ticket_score ''is dark'' ticket_dark = 1 / 2" by code_simp
  have l: "int (length small_tickets) \<le> 10"
    by (simp add: small_tickets_def)
  from search_tickets_caseless [of small_tickets "''is dark''" 10]
  have e: "search_tickets (Tickets small_tickets) ''is dark'' 10 =
     slice_to (sort_key (\<lambda>x. - get_or (match_score x) 0)
       (map (\<lambda>t. t\<lparr>match_score := Some (caseless_ticket_score ''is dark'' t)\<rparr>)
          (filter (\<lambda>t. 0 < caseless_ticket_score ''is dark'' t) small_tickets))) 10"
    and a: "0 \<le> (10::int) \<longrightarrow>
          int (length (search_tickets (Tickets small_tickets) ''is dark'' 10)) \<le> 10"
    and b: "int (length small_tickets) \<le> 10 \<longrightarrow>
        set (search_tickets (Tickets small_tickets) ''is dark'' 10) =
        (\<lambda>t. t\<lparr>match_score := Some (caseless_ticket_score ''is dark'' t)\<rparr>) `
          {t \<in> set small_tickets. 0 < caseless_ticket_score ''is dark'' t}"
    by blast+
  have v: "search_tickets (Tickets small_tickets) ''is dark'' 10 =
                 [ticket_dark\<lparr>match_score := Some (1 / 2)\<rparr>]"
    unfolding e by (simp add: small_tickets_def s1 s2 slice_to_def)
  from a have a': "int (length (search_tickets (Tickets small_tickets) ''is dark'' 10)) \<le> 10"
    by simp
  from b l have b': "set (search_tickets (Tickets small_tickets) ''is dark'' 10) =
        (\<lambda>t. t\<lparr>match_score := Some (caseless_ticket_score ''is dark'' t)\<rparr>) `
          {t \<in> set small_tickets. 0 < caseless_ticket_score ''is dark'' t}"
    by blast
  from v a' b' show ?thesis by blast
qed

text \<open>The score as the claim words it, at the ticket \<open>PROJ-1\<close> and the query \<open>PROJ\<close>:
  the lowercased query is no substring of the stored id, so the claimed score is 0
  and the ticket would be dropped, while the code scores it 10 and returns it.\<close>

theorem claimed_ticket_score_counterexample:
  "claimed_ticket_score ''PROJ'' ticket_login = 0
   \<and> ticket_score ''PROJ'' ticket_login = 10
   \<and> hd (search_tickets (Tickets small_tickets) ''PROJ'' 10) = ticket_login\<lparr>match_score := Some 10\<rparr>"
proof -
  have c: "claimed_ticket_score ''PROJ'' ticket_login = 0" by code_simp
  have s1: "ticket_score ''PROJ'' ticket_login = 10" by code_simp
  have s2: "ticket_score ''PROJ'' ticket_dark = 10" by code_simp
  have "search_tickets (Tickets small_tickets) ''PROJ'' 10 =
        [ticket_login\<lparr>match_score := Some 10\<rparr>, ticket_dark\<lparr>match_score := Some 10\<rparr>]"
    by (simp add: search_tickets_eq small_tickets_def s1 s2 slice_to_def get_or_def)
  with c s1 show ?thesis by simp
qed


subsection \<open>Ticket lookup\<close>

lemma get_ticket_normalised:
  "upper (clean_text a) = upper (clean_text b) \<Longrightarrow> get_ticket r a = get_ticket r b"
  by (simp add: get_ticket_def)

lemma get_ticket_local_hit:
  assumes "fst (get_ticket_from_local r (upper (clean_text a))) = Some t" and "t \<noteq> empty_ticket"
  shows "get_ticket r a =
           (Inr (Some t), snd (get_ticket_from_local r (upper (clean_text a))) @
              [(INFO, ''Retrieved ticket '' @ upper (clean_text a) @ '' from local storage'')])"
proof -
  obtain x l where loc: "get_ticket_from_local r (upper (clean_text a)) = (x, l)"
    by (cases "get_ticket_from_local r (upper (clean_text a))")
  with assms have "x = Some t" by simp
  with loc assms(2) show ?thesis
    by (simp add: get_ticket_def Let_def)
qed

lemma get_ticket_from_local_file:
  "tickets_file r' = tickets_file r \<Longrightarrow> get_ticket_from_local r' tid = get_ticket_from_local r tid"
  by (simp add: get_ticket_from_local_def)

lemma get_ticket_local_miss:
  assumes "fst (get_ticket_from_local r (upper (clean_text a))) \<in> {None, Some empty_ticket}"
    and "fetch_ticket_from_api r (upper (clean_text a)) = (Inr None, log2)"
  shows "get_ticket r a =
           (Inr None, snd (get_ticket_from_local r (upper (clean_text a))) @ log2 @
              [(WARNING, ''Ticket '' @ upper (clean_text a) @ '' not found'')])"
proof -
  obtain x l where loc: "get_ticket_from_local r (upper (clean_text a)) = (x, l)"
    by (cases "get_ticket_from_local r (upper (clean_text a))")
  with assms(1) have "x = None \<or> x = Some empty_ticket" by simp
  with loc assms(2) show ?thesis
    by (auto simp: get_ticket_def Let_def)
qed

lemma normalise_seeded_id:
  "upper (clean_text ''proj-1001'') = ''PROJ-1001''" "upper (clean_text ''PROJ-1001'') = ''PROJ-1001''"
  by code_simp+

lemma find_seeded_id:
  "find (\<lambda>ticket. upper (get_or (t_id ticket) []) = ''PROJ-1001'') sample_tickets =
     Some (sample_tickets ! 0)"
  by code_simp

lemma seeded_not_empty: "sample_tickets ! 0 \<noteq> empty_ticket"
proof
  assume "sample_tickets ! 0 = empty_ticket"
  then have "t_id (sample_tickets ! 0) = t_id empty_ticket" by simp
  then show False by (simp add: sample_tickets_def empty_ticket_def)
qed

text \<open>
  Claim C5. \<open>get_ticket\<close> looks a ticket up under the cleaned and uppercased id, so
  that \<open>proj-1001\<close> and \<open>PROJ-1001\<close> give the same result, which over the seeded file
  is the first seeded ticket. The local file is read first: a ticket found there is
  returned whatever the credentials and the remote side are. When the local file has
  no such ticket, each remote failure (credentials missing, a request that raises a
  \<open>RequestException\<close>, a response with a status other than 200) gives the result
  \<open>None\<close>, not an exception, with the failure and "not found" written to the log.
\<close>

theorem get_ticket_local_then_remote:
  "(upper (clean_text a) = upper (clean_text b) \<longrightarrow> get_ticket r a = get_ticket r b)
   \<and> get_ticket r ''proj-1001'' = get_ticket r ''PROJ-1001''
   \<and> (tickets_file r = Tickets sample_tickets \<longrightarrow>
        fst (get_ticket r ''proj-1001'') = Inr (Some (sample_tickets ! 0)))
   \<and> (fst (get_ticket_from_local r (upper (clean_text a))) = Some t \<and> t \<noteq> empty_ticket \<longrightarrow>
        fst (get_ticket r a) = Inr (Some t) \<and>
        (\<forall>r'::retriever. tickets_file r' = tickets_file r \<longrightarrow> get_ticket r' a = get_ticket r a))
   \<and> (fst (get_ticket_from_local r (upper (clean_text a))) \<in> {None, Some empty_ticket} \<and>
        (falsy (username r) \<or> falsy (api_token r)) \<longrightarrow>
        get_ticket r a =
          (Inr None, snd (get_ticket_from_local r (upper (clean_text a))) @
             [(WARNING, ''API credentials not configured. Using local tickets only.''),
              (WARNING, ''Ticket '' @ upper (clean_text a) @ '' not found'')]))
   \<and> (fst (get_ticket_from_local r (upper (clean_text a))) \<in> {None, Some empty_ticket} \<and>
        \<not> falsy (username r) \<and> \<not> falsy (api_token r) \<and>
        http_get r (api_url r @ ''/rest/api/2/issue/'' @ upper (clean_text a)) =
          Raises RequestException \<longrightarrow>
        get_ticket r a =
          (Inr None, snd (get_ticket_from_local r (upper (clean_text a))) @
             [(ERROR, ''Error fetching ticket from API''),
              (WARNING, ''Ticket '' @ upper (clean_text a) @ '' not found'')]))
   \<and> (fst (get_ticket_from_local r (upper (clean_text a))) \<in> {None, Some empty_ticket} \<and>
        \<not> falsy (username r) \<and> \<not> falsy (api_token r) \<and>
        http_get r (api_url r @ ''/rest/api/2/issue/'' @ upper (clean_text a)) =
          Response status body \<and> status \<noteq> 200 \<longrightarrow>
        get_ticket r a =
          (Inr None, snd (get_ticket_from_local r (upper (clean_text a))) @
             [(ERROR, ''API request failed with status''),
              (WARNING, ''Ticket '' @ upper (clean_text a) @ '' not found'')]))"
proof (intro conjI impI)
  show "upper (clean_text a) = upper (clean_text b) \<Longrightarrow> get_ticket r a = get_ticket r b"
    by (rule get_ticket_normalised)
next
  show "get_ticket r ''proj-1001'' = get_ticket r ''PROJ-1001''"
    by (rule get_ticket_normalised) (simp add: normalise_seeded_id)
next
  assume "tickets_file r = Tickets sample_tickets"
  then have "fst (get_ticket_from_local r (upper (clean_text ''proj-1001''))) =
             Some (sample_tickets ! 0)"
    by (simp add: get_ticket_from_local_def normalise_seeded_id find_seeded_id)
  from get_ticket_local_hit [OF this seeded_not_empty]
  show "fst (get_ticket r ''proj-1001'') = Inr (Some (sample_tickets ! 0))"
    by simp
next
  assume h: "fst (get_ticket_from_local r (upper (clean_text a))) = Some t \<and> t \<noteq> empty_ticket"
  then show "fst (get_ticket r a) = Inr (Some t)"
    using get_ticket_local_hit [of r a t] by simp
  show "\<forall>r'::retriever. tickets_file r' = tickets_file r \<longrightarrow> get_ticket r' a = get_ticket r a"
  proof (intro allI impI)
    fix r' :: retriever assume f: "tickets_file r' = tickets_file r"
    have l: "get_ticket_from_local r' (upper (clean_text a)) =
             get_ticket_from_local r (upper (clean_text a))"
      using f by (rule get_ticket_from_local_file)
    with h have "fst (get_ticket_from_local r' (upper (clean_text a))) = Some t" by simp
    from get_ticket_local_hit [OF this] h get_ticket_local_hit [of r a t] l
    show "get_ticket r' a = get_ticket r a" by simp
  qed
next
  assume h: "fst (get_ticket_from_local r (upper (clean_text a))) \<in> {None, Some empty_ticket} \<and>
        (falsy (username r) \<or> falsy (api_token r))"
  then have "fetch_ticket_from_api r (upper (clean_text a)) =
      (Inr None, [(WARNING, ''API credentials not configured. Using local tickets only.'')])"
    by (simp add: fetch_ticket_from_api_def)
  with h get_ticket_local_miss [of r a]
  show "get_ticket r a =
          (Inr None, snd (get_ticket_from_local r (upper (clean_text a))) @
             [(WARNING, ''API credentials not configured. Using local tickets only.''),
              (WARNING, ''Ticket '' @ upper (clean_text a) @ '' not found'')])"
    by simp
next
  assume h: "fst (get_ticket_from_local r (upper (clean_text a))) \<in> {None, Some empty_ticket} \<and>
        \<not> falsy (username r) \<and> \<not> falsy (api_token r) \<and>
        http_get r (api_url r @ ''/rest/api/2/issue/'' @ upper (clean_text a)) =
          Raises RequestException"
  then have "fetch_ticket_from_api r (upper (clean_text a)) =
      (Inr None, [(ERROR, ''Error fetching ticket from API'')])"
    by (simp add: fetch_ticket_from_api_def)
  with h get_ticket_local_miss [of r a]
  show "get_ticket r a =
          (Inr None, snd (get_ticket_from_local r (upper (clean_text a))) @
             [(ERROR, ''Error fetching ticket from API''),
              (WARNING, ''Ticket '' @ upper (clean_text a) @ '' not found'')])"
    by simp
next
  assume h: "fst (get_ticket_from_local r (upper (clean_text a))) \<in> {None, Some empty_ticket} \<and>
        \<not> falsy (username r) \<and> \<not> falsy (api_token r) \<and>
        http_get r (api_url r @ ''/rest/api/2/issue/'' @ upper (clean_text a)) =
          Response status body \<and> status \<noteq> 200"
  then have "fetch_ticket_from_api r (upper (clean_text a)) =
      (Inr None, [(ERROR, ''API request failed with status'')])"
    by (simp add: fetch_ticket_from_api_def)
  with h get_ticket_local_miss [of r a]
  show "get_ticket r a =
          (Inr None, snd (get_ticket_from_local r (upper (clean_text a))) @
             [(ERROR, ''API request failed with status''),
              (WARNING, ''Ticket '' @ upper (clean_text a) @ '' not found'')])"
    by simp
qed


text \<open>Over the seeded file: the first seeded ticket is found under a lowercase id
  without credentials and with a remote side that would raise; an id that is not in
  the file gives \<open>None\<close> without credentials, with a request that raises a
  \<open>RequestException\<close>, and with a response of status 404.\<close>

theorem get_ticket_local_then_remote_witness:
  "fst (get_ticket (seeded_retriever None (\<lambda>url. Raises OtherException)) ''proj-1001'') =
     Inr (Some (sample_tickets ! 0))
   \<and> get_ticket (seeded_retriever None (\<lambda>url. Raises OtherException)) ''proj-9'' =
       (Inr None, [(WARNING, ''API credentials not configured. Using local tickets only.''),
                   (WARNING, ''Ticket PROJ-9 not found'')])
   \<and> get_ticket (seeded_retriever (Some ''user'') (\<lambda>url. Raises RequestException)) ''proj-9'' =
       (Inr None, [(ERROR, ''Error fetching ticket from API''),
                   (WARNING, ''Ticket PROJ-9 not found'')])
   \<and> get_ticket (seeded_retriever (Some ''user'') (\<lambda>url. Response 404 (Inl OtherException)))
         ''proj-9'' =
       (Inr None, [(ERROR, ''API request failed with status''),
                   (WARNING, ''Ticket PROJ-9 not found'')])"
proof -
  have n: "upper (clean_text ''proj-9'') = ''PROJ-9''" by code_simp
  have f: "find (\<lambda>ticket. upper (get_or (t_id ticket) []) = ''PROJ-9'') sample_tickets = None"
    by code_simp
  have loc: "get_ticket_from_local (seeded_retriever c h) ''PROJ-9'' = (None, [])" for c h
    by (simp add: get_ticket_from_local_def seeded_retriever_def f)
  have a: "fst (get_ticket (seeded_retriever None (\<lambda>url. Raises OtherException)) ''proj-1001'') =
     Inr (Some (sample_tickets ! 0))"
    using get_ticket_local_then_remote
      [of "''proj-1001''" "''proj-1001''" "seeded_retriever None (\<lambda>url. Raises OtherException)",
       THEN conjunct2, THEN conjunct2, THEN conjunct1]
    by (simp add: seeded_retriever_def)
  have b: "get_ticket (seeded_retriever None (\<lambda>url. Raises OtherException)) ''proj-9'' =
       (Inr None, [(WARNING, ''API credentials not configured. Using local tickets only.''),
                   (WARNING, ''Ticket PROJ-9 not found'')])"
    using get_ticket_local_then_remote
      [of "''proj-9''" "''proj-9''" "seeded_retriever None (\<lambda>url. Raises OtherException)",
       THEN conjunct2, THEN conjunct2, THEN conjunct2, THEN conjunct2, THEN conjunct1]
    unfolding n loc by (simp add: seeded_retriever_def falsy_def)
  have c: "get_ticket (seeded_retriever (Some ''user'') (\<lambda>url. Raises RequestException)) ''proj-9'' =
       (Inr None, [(ERROR, ''Error fetching ticket from API''),
                   (WARNING, ''Ticket PROJ-9 not found'')])"
    using get_ticket_local_then_remote
      [of "''proj-9''" "''proj-9''" "seeded_retriever (Some ''user'') (\<lambda>url. Raises RequestException)",
       THEN conjunct2, THEN conjunct2, THEN conjunct2, THEN conjunct2, THEN conjunct2,
       THEN conjunct1]
    unfolding n loc by (simp add: seeded_retriever_def falsy_def)
  have d: "get_ticket (seeded_retriever (Some ''user'') (\<lambda>url. Response 404 (Inl OtherException)))
         ''proj-9'' =
       (Inr None, [(ERROR, ''API request failed with status''),
                   (WARNING, ''Ticket PROJ-9 not found'')])"
    using get_ticket_local_then_remote
      [of "''proj-9''" "''proj-9''"
          "seeded_retriever (Some ''user'') (\<lambda>url. Response 404 (Inl OtherException))" _
          404 "Inl OtherException",
       THEN conjunct2, THEN conjunct2, THEN conjunct2, THEN conjunct2, THEN conjunct2,
       THEN conjunct2]
    unfolding n loc by (simp add: seeded_retriever_def falsy_def)
  from a b c d show ?thesis by blast
qed

section \<open>Facts about the response composition\<close>

lemma str_nat_1: "str_nat (Suc 0) = ''1''"
  by code_simp

lemma collapse_whitespace_no_space:
  "\<forall>c\<in>set s. \<not> is_space c \<Longrightarrow> collapse_whitespace s = s"
  by (induction s) auto

lemma clean_text_no_space: "\<forall>c\<in>set s. \<not> is_space c \<Longrightarrow> clean_text s = s"
proof (cases s)
  case Nil
  then show ?thesis by (simp add: clean_text_def)
next
  case (Cons c s')
  assume a: "\<forall>c\<in>set s. \<not> is_space c"
  then have "dropWhile is_space s = s"
    using Cons by simp
  moreover have "dropWhile is_space (rev s) = rev s"
    using a by (cases "rev s") (auto simp: rev_eq_Cons_iff)
  ultimately show ?thesis
    using a by (simp add: clean_text_def strip_def collapse_whitespace_no_space)
qed

text \<open>
  Claim C8, at the failing input. An article whose content has exactly 300 characters
  is not truncated: the content line shows all of it. The marker line \<open>...\<close> follows
  all the same, because the code tests the length of the truncated content with
  \<open>\<ge> 300\<close>. \<open>format_response\<close>, which truncates in the same way, tests the length
  before truncation with \<open>>\<close> and adds no marker to the same text.
\<close>

theorem marker_without_truncation:
  "take 300 (replicate 300 (CHR ''a'')) = replicate 300 (CHR ''a'')
   \<and> relevant_information [plain_article ''T'' (replicate 300 (CHR ''a''))] =
       [''**Relevant Information:**'',
        [CHR 0x0A] @ ''1. **T** (general)'',
        ''   '' @ replicate 300 (CHR ''a''),
        ''   ...'',
        []]
   \<and> format_response (replicate 300 (CHR ''a'')) 300 = replicate 300 (CHR ''a'')"
proof -
  have "\<not> is_space (CHR ''a'')" by (simp add: is_space_def)
  then have "clean_text (replicate 300 (CHR ''a'')) = replicate 300 (CHR ''a'')"
    by (intro clean_text_no_space) simp
  then have "format_response (replicate 300 (CHR ''a'')) 300 = replicate 300 (CHR ''a'')"
    by (simp add: format_response_def)
  moreover have "relevant_information [plain_article ''T'' (replicate 300 (CHR ''a''))] =
       [''**Relevant Information:**'',
        [CHR 0x0A] @ ''1. **T** (general)'',
        ''   '' @ replicate 300 (CHR ''a''),
        ''   ...'',
        []]"
    by (simp add: relevant_information_def article_lines_def plain_article_def get_or_def
        str_nat_1 upt_rec)
  ultimately show ?thesis by simp
qed

end
